theory Spec2Isabelle
  imports Complex_Main
begin

section \<open>Numbers and library functions\<close>

text \<open>
  The program computes with IEEE doubles. Here every number is a \<^typ>\<open>real\<close>: the
  theory describes the arithmetic expressions the code evaluates, read over the
  reals. Rounding has no counterpart here, and neither have the special values
  \<open>inf\<close> and \<open>nan\<close> that numpy arithmetic yields outside the data model's \<open>S > 0\<close>,
  \<open>K > 0\<close>, \<open>T > 0\<close>, \<open>sigma > 0\<close>; every statement about computed numbers therefore
  carries these four preconditions. What is modelled of the doubles is where an
  operation on Python floats raises instead of returning.
\<close>

subsection \<open>\<open>scipy.stats.norm\<close>\<close>

text \<open>
  \<open>norm.pdf\<close> is \<open>exp(-x**2/2) / sqrt(2*pi)\<close>. \<open>norm.cdf\<close> is the standard normal
  distribution function, which the library evaluates as \<open>(1 + erf(x / sqrt 2)) / 2\<close>;
  the error function is given by its Maclaurin series
  \<open>erf x = 2/sqrt pi * (\<Sum>n. (-1)^n * x^(2n+1) / (n! * (2n+1)))\<close>.
\<close>

definition erf_coeff :: "real \<Rightarrow> nat \<Rightarrow> real" where
  "erf_coeff x n = x ^ (2 * n + 1) / (fact n * real (2 * n + 1))"

definition erf :: "real \<Rightarrow> real" where
  "erf x = 2 / sqrt pi * (\<Sum>n. (- 1) ^ n * erf_coeff x n)"

definition norm_cdf :: "real \<Rightarrow> real" where
  "norm_cdf x = (1 + erf (x / sqrt 2)) / 2"

definition norm_pdf :: "real \<Rightarrow> real" where
  "norm_pdf x = exp (- (x ^ 2) / 2) / sqrt (2 * pi)"

subsection \<open>\<open>numpy.linspace\<close>\<close>

text \<open>
  \<open>np.linspace(start, stop, num)\<close> with the default \<open>endpoint=True\<close>: the entries are
  \<open>i * step + start\<close> for \<open>i = 0, ..., num - 1\<close> with \<open>step = (stop - start) / (num - 1)\<close>,
  and, when \<open>num > 1\<close>, the last entry is then overwritten with \<open>stop\<close>.
\<close>

definition linspace :: "real \<Rightarrow> real \<Rightarrow> nat \<Rightarrow> real list" where
  "linspace start stop num =
    (let dv = num - 1;
         step = (stop - start) / real dv;
         y = map (\<lambda>i. real i * step + start) [0..<num]
     in if num > 1 then y[num - 1 := stop] else y)"

section \<open>The pricing function (\<open>black_scholes.py\<close>)\<close>

datatype error = ValueError | ZeroDivisionError | OverflowError

record greeks =
  Price :: real
  Delta :: real
  Gamma :: real
  Theta :: real
  Vega :: real
  Rho :: real

text \<open>
  \<open>black_scholes(S, K, T, r, sigma, option_type)\<close>. The \<open>if/elif/else\<close> on
  \<open>option_type\<close> assigns \<open>price\<close>, \<open>delta\<close> and \<open>rho\<close> or raises; the statements after
  it compute \<open>gamma\<close>, \<open>vega\<close> and \<open>theta\<close> and build the returned dictionary. The
  comparisons are Python string equalities, so they are case-sensitive; the
  comparison inside \<open>theta\<close> is against the lowercase \<open>"call"\<close>, as in the source.

  The arithmetic of \<open>black_scholes\<close> never raises: that is the call with numpy scalars
  for the numbers, as in the sweep of \<open>app.py\<close>, and the result of every call in
  which no arithmetic operation raises.
\<close>

definition black_scholes ::
  "real \<Rightarrow> real \<Rightarrow> real \<Rightarrow> real \<Rightarrow> real \<Rightarrow> string \<Rightarrow> error + greeks" where
  "black_scholes S K T r sigma option_type =
    (let d1 = (ln (S / K) + (r + 0.5 * sigma ^ 2) * T) / (sigma * sqrt T);
         d2 = d1 - sigma * sqrt T
     in case (if option_type = ''Call'' then
                Inr (S * norm_cdf d1 - K * exp (- r * T) * norm_cdf d2,
                     norm_cdf d1,
                     K * T * exp (- r * T) * norm_cdf d2)
              else if option_type = ''Put'' then
                Inr (K * exp (- r * T) * norm_cdf (- d2) - S * norm_cdf (- d1),
                     - norm_cdf (- d1),
                     - K * T * exp (- r * T) * norm_cdf (- d2))
              else Inl ValueError) of
          Inl e \<Rightarrow> Inl e
        | Inr (price, delta, rho) \<Rightarrow>
            (let gamma = norm_pdf d1 / (S * sigma * sqrt T);
                 vega = S * norm_pdf d1 * sqrt T;
                 theta = (- S * norm_pdf d1 * sigma / (2 * sqrt T)
                          - r * K * exp (- r * T)
                            * norm_cdf (if option_type = ''call'' then d2 else - d2))
             in Inr \<lparr>Price = price, Delta = delta, Gamma = gamma,
                     Theta = theta, Vega = vega, Rho = rho\<rparr>))"

text \<open>
  Called with Python floats, as on lines 61 and 62 of \<open>app.py\<close>, two operations of
  line 19 can raise before the variant is looked at. First \<open>S / K\<close> raises
  \<open>ZeroDivisionError\<close> when \<open>K\<close> is zero. Then \<open>sigma**2\<close> raises \<open>OverflowError\<close> when the
  result is not a finite double, that is when the exact square, rounded to nearest,
  reaches \<open>2^1024 - 2^970\<close>. Float multiplication, addition and division by a nonzero
  float return \<open>inf\<close> instead of raising, and from \<open>np.log\<close> on every intermediate value
  is a numpy scalar.
\<close>

definition float_overflow :: "real \<Rightarrow> bool" where
  "float_overflow x \<longleftrightarrow> 2 ^ 1024 - 2 ^ 970 \<le> \<bar>x\<bar>"

definition black_scholes_pyfloat ::
  "real \<Rightarrow> real \<Rightarrow> real \<Rightarrow> real \<Rightarrow> real \<Rightarrow> string \<Rightarrow> error + greeks" where
  "black_scholes_pyfloat S K T r sigma option_type =
    (if K = 0 then Inl ZeroDivisionError
     else if float_overflow (sigma ^ 2) then Inl OverflowError
     else black_scholes S K T r sigma option_type)"

section \<open>The profitability sweep (\<open>app.py\<close>)\<close>

type_synonym matrix = "real list list"

text \<open>\<open>np.zeros((m, n))\<close> and the assignment \<open>M[i, j] = v\<close>.\<close>

definition zeros :: "nat \<Rightarrow> nat \<Rightarrow> matrix" where
  "zeros m n = replicate m (replicate n 0)"

definition set_cell :: "matrix \<Rightarrow> nat \<Rightarrow> nat \<Rightarrow> real \<Rightarrow> matrix" where
  "set_cell M i j v = M[i := (M ! i)[j := v]]"

definition enumerate_list :: "'a list \<Rightarrow> (nat \<times> 'a) list" where
  "enumerate_list xs = zip [0..<length xs] xs"

text \<open>The two axes, lines 140 and 141.\<close>

definition stock_prices :: "real \<times> real \<Rightarrow> real list" where
  "stock_prices S_range = linspace (fst S_range) (snd S_range) 50"

definition volatilities :: "real \<times> real \<Rightarrow> real list" where
  "volatilities sigma_range = linspace (fst sigma_range) (snd sigma_range) 50"

text \<open>
  The inner loop \<open>for j, sigma in enumerate(volatilities)\<close> for one row \<open>i\<close> with spot
  \<open>S\<close>. The state is the pair (\<open>call_profitability\<close>, \<open>put_profitability\<close>); an
  exception of \<open>black_scholes\<close> ends the sweep.
\<close>

fun inner_loop ::
  "real \<Rightarrow> real \<Rightarrow> real \<Rightarrow> real \<Rightarrow> real \<Rightarrow> nat \<Rightarrow> real \<Rightarrow> (nat \<times> real) list
    \<Rightarrow> matrix \<times> matrix \<Rightarrow> error + (matrix \<times> matrix)" where
  "inner_loop K T r call_purchase_price put_purchase_price i S [] st = Inr st"
| "inner_loop K T r call_purchase_price put_purchase_price i S ((j, sigma) # rest) st =
    (case black_scholes S K T r sigma ''Call'' of
       Inl e \<Rightarrow> Inl e
     | Inr call_res \<Rightarrow>
        (case black_scholes S K T r sigma ''Put'' of
           Inl e \<Rightarrow> Inl e
         | Inr put_res \<Rightarrow>
             inner_loop K T r call_purchase_price put_purchase_price i S rest
               (set_cell (fst st) i j (Price call_res - call_purchase_price),
                set_cell (snd st) i j (Price put_res - put_purchase_price))))"

text \<open>The outer loop \<open>for i, S in enumerate(stock_prices)\<close>.\<close>

fun outer_loop ::
  "real \<Rightarrow> real \<Rightarrow> real \<Rightarrow> real \<Rightarrow> real \<Rightarrow> real list \<Rightarrow> (nat \<times> real) list
    \<Rightarrow> matrix \<times> matrix \<Rightarrow> error + (matrix \<times> matrix)" where
  "outer_loop K T r call_purchase_price put_purchase_price vols [] st = Inr st"
| "outer_loop K T r call_purchase_price put_purchase_price vols ((i, S) # rest) st =
    (case inner_loop K T r call_purchase_price put_purchase_price i S
            (enumerate_list vols) st of
       Inl e \<Rightarrow> Inl e
     | Inr st' \<Rightarrow> outer_loop K T r call_purchase_price put_purchase_price vols rest st')"

text \<open>
  Lines 140 to 153: the axes, the two zero matrices and the nested iteration. The result
  is the pair (\<open>call_profitability\<close>, \<open>put_profitability\<close>).
\<close>

definition profitability ::
  "real \<Rightarrow> real \<Rightarrow> real \<Rightarrow> real \<times> real \<Rightarrow> real \<times> real \<Rightarrow> real \<Rightarrow> real
    \<Rightarrow> error + (matrix \<times> matrix)" where
  "profitability K T r S_range sigma_range call_purchase_price put_purchase_price =
    (let sp = stock_prices S_range;
         vs = volatilities sigma_range;
         call_profitability = zeros (length sp) (length vs);
         put_profitability = zeros (length sp) (length vs)
     in outer_loop K T r call_purchase_price put_purchase_price vs
          (enumerate_list sp) (call_profitability, put_profitability))"

section \<open>Facts about the normal distribution function\<close>

text \<open>
  The series of \<open>erf\<close> converges absolutely for every argument and \<open>erf\<close> is odd,
  so \<open>norm_cdf (- x) = 1 - norm_cdf x\<close>.
\<close>

lemma erf_coeff_abs_le: "\<bar>erf_coeff x n\<bar> \<le> \<bar>x\<bar> * (inverse (fact n) * (x\<^sup>2) ^ n)"
proof -
  have "\<bar>erf_coeff x n\<bar> = \<bar>x\<bar> * (x\<^sup>2) ^ n / (fact n * real (2 * n + 1))"
    by (simp add: erf_coeff_def abs_mult power_abs power_mult)
  also have "\<dots> \<le> \<bar>x\<bar> * (x\<^sup>2) ^ n / (fact n * 1)"
    by (intro divide_left_mono mult_left_mono mult_nonneg_nonneg mult_pos_pos) simp_all
  finally show ?thesis by (simp add: field_simps)
qed

lemma summable_abs_erf_coeff: "summable (\<lambda>n. \<bar>erf_coeff x n\<bar>)"
proof (rule summable_comparison_test')
  show "summable (\<lambda>n. \<bar>x\<bar> * (inverse (fact n) * (x\<^sup>2) ^ n))"
    by (intro summable_mult summable_exp)
  show "norm \<bar>erf_coeff x n\<bar> \<le> \<bar>x\<bar> * (inverse (fact n) * (x\<^sup>2) ^ n)" for n
    using erf_coeff_abs_le [of x n] by simp
qed

lemma summable_erf_series: "summable (\<lambda>n. (- 1) ^ n * erf_coeff x n)"
proof (rule summable_rabs_cancel)
  show "summable (\<lambda>n. \<bar>(- 1) ^ n * erf_coeff x n\<bar>)"
    using summable_abs_erf_coeff [of x] by (simp add: abs_mult power_abs)
qed

lemma erf_coeff_minus: "erf_coeff (- x) n = - erf_coeff x n"
  by (simp add: erf_coeff_def)

lemma erf_minus: "erf (- x) = - erf x"
proof -
  have "(\<Sum>n. (- 1) ^ n * erf_coeff (- x) n) = (\<Sum>n. - ((- 1) ^ n * erf_coeff x n))"
    by (simp add: erf_coeff_minus)
  also have "\<dots> = - (\<Sum>n. (- 1) ^ n * erf_coeff x n)"
    by (rule suminf_minus [OF summable_erf_series])
  finally show ?thesis by (simp add: erf_def)
qed

lemma norm_cdf_minus: "norm_cdf (- x) = 1 - norm_cdf x"
  using erf_minus [of "x / sqrt 2"] by (simp add: norm_cdf_def field_simps)

text \<open>
  Read as a power series in \<open>x\<close>, the series of \<open>erf\<close> has only odd powers; its
  termwise derivative has only even powers and is the exponential series of \<open>- x\<^sup>2\<close>.
  So \<open>erf\<close> has derivative \<open>2 / sqrt pi * exp (- x\<^sup>2)\<close>, and \<open>norm_cdf\<close> is the
  antiderivative of \<open>norm_pdf\<close> with value \<open>1/2\<close> at \<open>0\<close>; it is strictly increasing.
\<close>

lemma odd_index_cases:
  assumes "k \<notin> range (\<lambda>n::nat. 2 * n + 1)"
  shows "even k"
proof (rule ccontr)
  assume "odd k"
  then obtain n where "k = 2 * n + 1"
    by (auto elim: oddE)
  with assms show False
    by blast
qed

lemma even_index_cases:
  assumes "k \<notin> range (\<lambda>n::nat. 2 * n)"
  shows "odd k"
proof (rule ccontr)
  assume "\<not> odd k"
  then obtain n where "k = 2 * n"
    by (auto elim: evenE)
  with assms show False
    by blast
qed

lemma DERIV_erf: "DERIV erf x :> 2 / sqrt pi * exp (- (x\<^sup>2))"
proof -
  define c :: "nat \<Rightarrow> real"
    where "c k = (if odd k then (- 1) ^ (k div 2) / (fact (k div 2) * real k) else 0)" for k
  have odd_mono: "strict_mono (\<lambda>n::nat. 2 * n + 1)" and even_mono: "strict_mono (\<lambda>n::nat. 2 * n)"
    by (simp_all add: strict_mono_def)
  have zero: "c k * y ^ k = 0" if "k \<notin> range (\<lambda>n::nat. 2 * n + 1)" for k y
    using odd_index_cases [OF that] by (simp add: c_def)
  have tm: "c (2 * n + 1) * y ^ (2 * n + 1) = (- 1) ^ n * erf_coeff y n" for n y
    by (simp add: c_def erf_coeff_def)
  have sm: "summable (\<lambda>k. c k * y ^ k)" for y
  proof -
    have "summable (\<lambda>n. c (2 * n + 1) * y ^ (2 * n + 1))"
      using summable_erf_series [of y] by (simp only: tm)
    moreover have "summable (\<lambda>n. c (2 * n + 1) * y ^ (2 * n + 1))
                     \<longleftrightarrow> summable (\<lambda>k. c k * y ^ k)"
      by (rule summable_mono_reindex [OF odd_mono]) (rule zero)
    ultimately show ?thesis
      by simp
  qed
  have series: "(\<Sum>k. c k * y ^ k) = (\<Sum>n. (- 1) ^ n * erf_coeff y n)" for y
  proof -
    have "(\<Sum>n. c (2 * n + 1) * y ^ (2 * n + 1)) = (\<Sum>k. c k * y ^ k)"
      by (rule suminf_mono_reindex [OF odd_mono]) (rule zero)
    then show ?thesis
      by (simp only: tm)
  qed
  have dzero: "diffs c k * x ^ k = 0" if "k \<notin> range (\<lambda>n::nat. 2 * n)" for k
    using even_index_cases [OF that] by (simp add: diffs_def c_def)
  have dtm: "diffs c (2 * n) * x ^ (2 * n) = (- (x\<^sup>2)) ^ n /\<^sub>R fact n" for n
  proof -
    have "diffs c (2 * n) = (- 1) ^ n / fact n"
      by (simp add: diffs_def c_def)
    moreover have "x ^ (2 * n) = (x\<^sup>2) ^ n"
      by (rule power_mult)
    moreover have "(- (x\<^sup>2)) ^ n = (- 1) ^ n * (x\<^sup>2) ^ n"
      by (rule power_minus)
    ultimately show ?thesis
      by (simp add: divide_inverse)
  qed
  have "(\<Sum>n. diffs c (2 * n) * x ^ (2 * n)) = (\<Sum>k. diffs c k * x ^ k)"
    by (rule suminf_mono_reindex [OF even_mono]) (rule dzero)
  then have dsum: "(\<Sum>k. diffs c k * x ^ k) = exp (- (x\<^sup>2))"
    by (simp only: dtm exp_def)
  have "DERIV (\<lambda>y. \<Sum>k. c k * y ^ k) x :> (\<Sum>k. diffs c k * x ^ k)"
    by (rule termdiffs_strong_converges_everywhere [OF sm])
  then have "DERIV (\<lambda>y. \<Sum>n. (- 1) ^ n * erf_coeff y n) x :> exp (- (x\<^sup>2))"
    by (simp only: series dsum)
  then have "DERIV (\<lambda>y. 2 / sqrt pi * (\<Sum>n. (- 1) ^ n * erf_coeff y n)) x
               :> 2 / sqrt pi * exp (- (x\<^sup>2))"
    by (rule DERIV_cmult)
  then show ?thesis
    by (simp only: erf_def [abs_def])
qed

lemma erf_0: "erf 0 = 0"
  by (simp add: erf_def erf_coeff_def)

lemma norm_cdf_0: "norm_cdf 0 = 1 / 2"
  by (simp add: norm_cdf_def erf_0)

lemma DERIV_norm_cdf: "DERIV norm_cdf x :> norm_pdf x"
proof -
  have "DERIV (\<lambda>y. (1 + erf (y / sqrt 2)) / 2) x
          :> (0 + 2 / sqrt pi * exp (- ((x / sqrt 2)\<^sup>2)) * (1 / sqrt 2)) / 2"
    by (intro DERIV_cdivide DERIV_add DERIV_const DERIV_chain' [OF _ DERIV_erf])
       (auto intro!: derivative_eq_intros)
  moreover have "(0 + 2 / sqrt pi * exp (- ((x / sqrt 2)\<^sup>2)) * (1 / sqrt 2)) / 2 = norm_pdf x"
    by (simp add: norm_pdf_def power_divide real_sqrt_mult)
  ultimately show ?thesis
    by (simp only: norm_cdf_def [abs_def])
qed

lemma norm_pdf_pos: "0 < norm_pdf x"
  by (simp add: norm_pdf_def)

lemma norm_cdf_strict_mono:
  assumes "a < b"
  shows "norm_cdf a < norm_cdf b"
  using assms
proof (rule DERIV_pos_imp_increasing)
  fix x
  show "\<exists>y. DERIV norm_cdf x :> y \<and> 0 < y"
    using DERIV_norm_cdf [of x] norm_pdf_pos [of x] by blast
qed

lemma norm_cdf_neg_less: "0 < x \<Longrightarrow> norm_cdf (- x) < norm_cdf x"
  by (rule norm_cdf_strict_mono) simp

section \<open>The formulas of the pricing function\<close>





text \<open>
  C3. The claim is that for variant \<open>"Call"\<close> the returned theta is
  \<open>- S \<phi>(d1) sigma / (2 sqrt T) - r K e^(-rT) \<Phi>(d2)\<close>. The code selects the argument of
  \<open>\<Phi>\<close> by comparing \<open>option_type\<close> with the lowercase \<open>"call"\<close>, which a call that got past
  the variant check never equals. At \<open>S = K = 100\<close>, \<open>T = 1\<close>, \<open>r = 0.05\<close>, \<open>sigma = 0.2\<close>
  (where \<open>d1 = 0.35\<close> and \<open>d2 = 0.15\<close>) the returned theta is the expression with
  \<open>\<Phi>(- d2)\<close>, and it differs from the claimed expression with \<open>\<Phi>(d2)\<close>.
\<close>

theorem call_theta_takes_put_branch:
  "map_sum id Theta (black_scholes 100 100 1 (5 / 100) (2 / 10) ''Call'') =
     Inr (- 100 * norm_pdf (35 / 100) * (2 / 10) / (2 * sqrt 1)
          - 5 / 100 * 100 * exp (- (5 / 100 * 1)) * norm_cdf (- (15 / 100))) \<and>
   map_sum id Theta (black_scholes 100 100 1 (5 / 100) (2 / 10) ''Call'') \<noteq>
     Inr (- 100 * norm_pdf (35 / 100) * (2 / 10) / (2 * sqrt 1)
          - 5 / 100 * 100 * exp (- (5 / 100 * 1)) * norm_cdf (15 / 100))"
proof -
  have d1: "(ln (100 / 100) + (5 / 100 + 0.5 * (2 / 10)\<^sup>2) * 1) / (2 / 10 * sqrt 1)
              = (35 / 100 :: real)"
    by (simp add: power2_eq_square)
  have th: "map_sum id Theta (black_scholes 100 100 1 (5 / 100) (2 / 10) ''Call'') =
     Inr (- 100 * norm_pdf (35 / 100) * (2 / 10) / (2 * sqrt 1)
          - 5 / 100 * 100 * exp (- (5 / 100 * 1)) * norm_cdf (- (15 / 100)))"
    unfolding black_scholes_def Let_def d1 by simp
  have "norm_cdf (- (15 / 100)) < norm_cdf (15 / 100)"
    by (rule norm_cdf_neg_less) simp_all
  then have "norm_cdf (- (15 / 100)) \<noteq> norm_cdf (15 / 100)"
    by simp
  with th show ?thesis
    by simp
qed

text \<open>
  For every input, the theta returned for \<open>"Call"\<close> is the expression with \<open>\<Phi>(- d2)\<close>.
\<close>

lemma call_theta_computed:
  "\<exists>res. black_scholes S K T r sigma ''Call'' = Inr res \<and>
     (let d1 = (ln (S / K) + (r + 0.5 * sigma\<^sup>2) * T) / (sigma * sqrt T);
          d2 = d1 - sigma * sqrt T
      in Theta res = - S * norm_pdf d1 * sigma / (2 * sqrt T)
                     - r * K * exp (- (r * T)) * norm_cdf (- d2))"
  by (simp add: black_scholes_def Let_def)



text \<open>
  Put-call parity of the two price formulas, over the reals: the Call price minus the
  Put price is \<open>S - K e^(-rT)\<close>. The rounding error of the computed prices is outside
  this statement.
\<close>

lemma put_call_parity_reals:
  assumes "0 < S" and "0 < K" and "0 < T" and "0 < sigma"
  shows "\<exists>c p. black_scholes S K T r sigma ''Call'' = Inr c \<and>
           black_scholes S K T r sigma ''Put'' = Inr p \<and>
           Price c - Price p = S - K * exp (- (r * T))"
  by (simp add: black_scholes_def Let_def norm_cdf_minus algebra_simps)



section \<open>The variant check\<close>

text \<open>
  Where neither arithmetic exception arises, the call with Python floats is the
  function above.
\<close>

lemma black_scholes_pyfloat_eq:
  "K \<noteq> 0 \<Longrightarrow> \<not> float_overflow (sigma\<^sup>2) \<Longrightarrow>
     black_scholes_pyfloat S K T r sigma option_type = black_scholes S K T r sigma option_type"
  by (simp add: black_scholes_pyfloat_def)

text \<open>
  C7, as claimed: the function fails, with the invalid-variant error, exactly when
  \<open>option_type\<close> is neither \<open>"Call"\<close> nor \<open>"Put"\<close>, and returns a result for \<open>"Call"\<close> and
  \<open>"Put"\<close> with well-formed numbers. This fails at \<open>S = K = 100\<close>, \<open>T = 1\<close>, \<open>r = 0.05\<close>,
  \<open>sigma = 1e200\<close>, all positive floats: \<open>sigma**2\<close> overflows, so the call with
  \<open>"Call"\<close> raises \<open>OverflowError\<close> instead of returning, and the call with the
  unknown variant \<open>"Straddle"\<close> raises \<open>OverflowError\<close> too, not the invalid-variant error.
\<close>

theorem overflow_before_variant_check:
  "(0::real) < 100 \<and> (0::real) < 1 \<and> (0::real) < 10 ^ 200 \<and>
   black_scholes_pyfloat 100 100 1 (5 / 100) (10 ^ 200) ''Call'' = Inl OverflowError \<and>
   black_scholes_pyfloat 100 100 1 (5 / 100) (10 ^ 200) ''Straddle'' \<noteq> Inl ValueError"
  by (simp add: black_scholes_pyfloat_def float_overflow_def)

text \<open>
  C7, amended: called with Python floats, the function raises \<open>ZeroDivisionError\<close> when
  \<open>K\<close> is zero and otherwise \<open>OverflowError\<close> when \<open>sigma**2\<close> overflows, whatever the
  variant. In every other case it raises the invalid-variant error exactly when
  \<open>option_type\<close> is neither \<open>"Call"\<close> nor \<open>"Put"\<close>, and returns a result for \<open>"Call"\<close> and
  \<open>"Put"\<close>.
\<close>

theorem pyfloat_raises:
  "(K = 0 \<longrightarrow> black_scholes_pyfloat S K T r sigma option_type = Inl ZeroDivisionError) \<and>
   (K \<noteq> 0 \<and> float_overflow (sigma\<^sup>2) \<longrightarrow>
      black_scholes_pyfloat S K T r sigma option_type = Inl OverflowError) \<and>
   (K \<noteq> 0 \<and> \<not> float_overflow (sigma\<^sup>2) \<longrightarrow>
      (black_scholes_pyfloat S K T r sigma option_type = Inl ValueError
         \<longleftrightarrow> option_type \<notin> {''Call'', ''Put''}) \<and>
      (option_type \<in> {''Call'', ''Put''}
         \<longrightarrow> (\<exists>res. black_scholes_pyfloat S K T r sigma option_type = Inr res)))"
  by (auto simp add: black_scholes_pyfloat_def black_scholes_def Let_def)

theorem pyfloat_raises_witness:
  "black_scholes_pyfloat 100 0 1 (5 / 100) (2 / 10) ''Call'' = Inl ZeroDivisionError \<and>
   black_scholes_pyfloat 100 100 1 (5 / 100) (10 ^ 200) ''Put'' = Inl OverflowError \<and>
   black_scholes_pyfloat 100 100 1 (5 / 100) (2 / 10) ''Straddle'' = Inl ValueError \<and>
   black_scholes_pyfloat 100 100 1 (5 / 100) (2 / 10) ''Put'' \<noteq> Inl ValueError \<and>
   (\<exists>res. black_scholes_pyfloat 100 100 1 (5 / 100) (2 / 10) ''Put'' = Inr res)"
proof -
  have big: "float_overflow ((10 ^ 200)\<^sup>2)"
    by (simp add: float_overflow_def)
  have small: "\<not> float_overflow ((2 / 10)\<^sup>2)"
    by (simp add: float_overflow_def power2_eq_square)
  show ?thesis
    using pyfloat_raises [of 0 100 1 "5 / 100" "2 / 10" "''Call''"]
          pyfloat_raises [of 100 100 1 "5 / 100" "10 ^ 200" "''Put''"]
          pyfloat_raises [of 100 100 1 "5 / 100" "2 / 10" "''Straddle''"]
          pyfloat_raises [of 100 100 1 "5 / 100" "2 / 10" "''Put''"]
          big small
    by simp
qed

text \<open>
  C10. The check of \<open>option_type\<close> is case-sensitive: at the well-formed input
  \<open>S = 100\<close>, \<open>K = 100\<close>, \<open>T = 1\<close>, \<open>r = 0.05\<close>, \<open>sigma = 0.2\<close>, the lowercase spellings
  \<open>"call"\<close> and \<open>"put"\<close> that the docstring names both raise the invalid-option-type
  error instead of returning a price.
\<close>

theorem lowercase_variant_raises:
  "black_scholes 100 100 1 (5 / 100) (2 / 10) ''call'' = Inl ValueError \<and>
   black_scholes 100 100 1 (5 / 100) (2 / 10) ''put'' = Inl ValueError"
  by (simp add: black_scholes_def)

section \<open>The axes\<close>

text \<open>
  Entry \<open>i\<close> of \<open>linspace start stop num\<close> is \<open>start + i * (stop - start) / (num - 1)\<close>;
  overwriting the last entry with \<open>stop\<close> does not change its value over the reals.
\<close>

lemma length_linspace: "length (linspace start stop num) = num"
  by (simp add: linspace_def Let_def)

lemma linspace_nth:
  assumes "1 < num" and "i < num"
  shows "linspace start stop num ! i = start + real i * ((stop - start) / real (num - 1))"
proof (cases "i = num - 1")
  case True
  have "real (num - 1) \<noteq> 0"
    using assms by simp
  then have "start + real (num - 1) * ((stop - start) / real (num - 1)) = stop"
    by simp
  with True assms show ?thesis
    by (simp add: linspace_def Let_def)
next
  case False
  with assms show ?thesis
    by (simp add: linspace_def Let_def)
qed

lemma linspace_strictly_ascending:
  assumes "1 < num" and "start < stop"
  shows "sorted_wrt (<) (linspace start stop num)"
proof -
  have step: "0 < (stop - start) / real (num - 1)"
    using assms by simp
  show ?thesis
    unfolding sorted_wrt_iff_nth_less length_linspace
  proof (intro allI impI)
    fix i j :: nat
    assume "i < j" and "j < num"
    then have "real i * ((stop - start) / real (num - 1))
                < real j * ((stop - start) / real (num - 1))"
      using step by (intro mult_strict_right_mono) simp_all
    with \<open>i < j\<close> \<open>j < num\<close> assms show "linspace start stop num ! i < linspace start stop num ! j"
      by (simp add: linspace_nth)
  qed
qed

lemma linspace_hd: "1 < num \<Longrightarrow> hd (linspace start stop num) = start"
  using linspace_nth [of num 0 start stop] length_linspace [of start stop num]
  by (simp add: hd_conv_nth flip: length_0_conv)

lemma linspace_last: "1 < num \<Longrightarrow> last (linspace start stop num) = stop"
  by (simp add: linspace_def Let_def last_list_update)

lemma linspace_spacing:
  assumes "Suc i < num"
  shows "linspace start stop num ! Suc i - linspace start stop num ! i
           = (stop - start) / real (num - 1)"
proof -
  define d where "d = (stop - start) / real (num - 1)"
  have "linspace start stop num ! Suc i = start + real (Suc i) * d"
    unfolding d_def using assms by (intro linspace_nth) simp_all
  moreover have "linspace start stop num ! i = start + real i * d"
    unfolding d_def using assms by (intro linspace_nth) simp_all
  ultimately have "linspace start stop num ! Suc i - linspace start stop num ! i = d"
    by (simp add: algebra_simps)
  then show ?thesis
    by (simp only: d_def)
qed

text \<open>
  C9. When \<open>S_range\<close> has \<open>min < max\<close>, the spot axis has exactly 50 entries, consecutive
  entries differ by the same step \<open>(max - min) / 49\<close>, the entries are strictly
  ascending, the first is \<open>min\<close> and the last is \<open>max\<close>. The volatility axis is built the
  same way from \<open>sigma_range\<close>. The number of points is the literal 50 of the source.
\<close>

theorem axes_evenly_spaced:
  "(fst S_range < snd S_range \<longrightarrow>
      length (stock_prices S_range) = 50 \<and>
      (\<forall>i. Suc i < 50 \<longrightarrow> stock_prices S_range ! Suc i - stock_prices S_range ! i
              = (snd S_range - fst S_range) / 49) \<and>
      sorted_wrt (<) (stock_prices S_range) \<and>
      hd (stock_prices S_range) = fst S_range \<and>
      last (stock_prices S_range) = snd S_range) \<and>
   (fst sigma_range < snd sigma_range \<longrightarrow>
      length (volatilities sigma_range) = 50 \<and>
      (\<forall>j. Suc j < 50 \<longrightarrow> volatilities sigma_range ! Suc j - volatilities sigma_range ! j
              = (snd sigma_range - fst sigma_range) / 49) \<and>
      sorted_wrt (<) (volatilities sigma_range) \<and>
      hd (volatilities sigma_range) = fst sigma_range \<and>
      last (volatilities sigma_range) = snd sigma_range)"
  unfolding stock_prices_def volatilities_def
  by (simp add: length_linspace linspace_spacing linspace_strictly_ascending
        linspace_hd linspace_last)

theorem axes_evenly_spaced_witness:
  "length (stock_prices (90, 110)) = 50 \<and>
   stock_prices (90, 110) ! Suc 0 - stock_prices (90, 110) ! 0 = 20 / 49 \<and>
   sorted_wrt (<) (stock_prices (90, 110)) \<and>
   hd (stock_prices (90, 110)) = 90 \<and>
   last (stock_prices (90, 110)) = 110 \<and>
   length (volatilities (15 / 100, 25 / 100)) = 50 \<and>
   volatilities (15 / 100, 25 / 100) ! Suc 0 - volatilities (15 / 100, 25 / 100) ! 0
     = (10 / 100) / 49 \<and>
   sorted_wrt (<) (volatilities (15 / 100, 25 / 100)) \<and>
   hd (volatilities (15 / 100, 25 / 100)) = 15 / 100 \<and>
   last (volatilities (15 / 100, 25 / 100)) = 25 / 100"
  using axes_evenly_spaced [of "(90, 110)" "(15 / 100, 25 / 100)"]
  by simp

section \<open>The profitability matrices\<close>

text \<open>
  Both variants pass the variant check, so the sweep never raises. Each pass of the
  inner loop writes one cell of row \<open>i\<close> in each matrix and leaves every other cell as
  it was; the invariants below are proved by induction on the part of the axis
  already visited.
\<close>

lemma black_scholes_Call_returns:
  "black_scholes S K T r sigma ''Call'' = Inr (projr (black_scholes S K T r sigma ''Call''))"
  by (simp add: black_scholes_def Let_def)

lemma black_scholes_Put_returns:
  "black_scholes S K T r sigma ''Put'' = Inr (projr (black_scholes S K T r sigma ''Put''))"
  by (simp add: black_scholes_def Let_def)

lemma inner_loop_Cons:
  "inner_loop K T r cpp ppp i S ((j, sigma) # rest) st =
     inner_loop K T r cpp ppp i S rest
       (set_cell (fst st) i j (Price (projr (black_scholes S K T r sigma ''Call'')) - cpp),
        set_cell (snd st) i j (Price (projr (black_scholes S K T r sigma ''Put'')) - ppp))"
proof -
  obtain c where c: "black_scholes S K T r sigma ''Call'' = Inr c"
    using black_scholes_Call_returns by blast
  obtain p where p: "black_scholes S K T r sigma ''Put'' = Inr p"
    using black_scholes_Put_returns by blast
  show ?thesis
    by (simp add: c p)
qed

lemma length_set_cell: "length (set_cell M i j v) = length M"
  by (simp add: set_cell_def)

lemma length_row_set_cell: "length (set_cell M i j v ! i') = length (M ! i')"
proof (cases "i < length M")
  case True
  then show ?thesis
    by (cases "i' = i") (simp_all add: set_cell_def)
next
  case False
  then show ?thesis
    by (simp add: set_cell_def list_update_beyond)
qed

lemma nth_set_cell:
  assumes "i < length M" and "j < length (M ! i)"
  shows "set_cell M i j v ! i' ! j' = (if i' = i \<and> j' = j then v else M ! i' ! j')"
proof (cases "i' = i")
  case True
  with assms show ?thesis
    by (cases "j' = j") (simp_all add: set_cell_def)
next
  case False
  then show ?thesis
    by (simp add: set_cell_def)
qed

lemma enumerate_list_snoc:
  "enumerate_list (xs @ [x]) = enumerate_list xs @ [(length xs, x)]"
  by (simp add: enumerate_list_def)

lemma inner_loop_append:
  "inner_loop K T r cpp ppp i S (ps @ qs) st =
     (case inner_loop K T r cpp ppp i S ps st of
        Inl e \<Rightarrow> Inl e
      | Inr st' \<Rightarrow> inner_loop K T r cpp ppp i S qs st')"
proof (induction ps arbitrary: st)
  case Nil
  show ?case by simp
next
  case (Cons p ps)
  obtain j sigma where p: "p = (j, sigma)"
    by (cases p)
  show ?case
    by (simp add: p Cons.IH split: sum.splits)
qed

lemma outer_loop_append:
  "outer_loop K T r cpp ppp vols (ps @ qs) st =
     (case outer_loop K T r cpp ppp vols ps st of
        Inl e \<Rightarrow> Inl e
      | Inr st' \<Rightarrow> outer_loop K T r cpp ppp vols qs st')"
proof (induction ps arbitrary: st)
  case Nil
  show ?case by simp
next
  case (Cons p ps)
  obtain i S where p: "p = (i, S)"
    by (cases p)
  show ?case
    by (simp add: p Cons.IH split: sum.splits)
qed

lemma inner_loop_row:
  assumes "i < length (fst st)" and "i < length (snd st)"
    and "length vols \<le> length (fst st ! i)" and "length vols \<le> length (snd st ! i)"
  shows "\<exists>cm pm. inner_loop K T r cpp ppp i S (enumerate_list vols) st = Inr (cm, pm) \<and>
     length cm = length (fst st) \<and> length pm = length (snd st) \<and>
     (\<forall>i'. length (cm ! i') = length (fst st ! i')) \<and>
     (\<forall>i'. length (pm ! i') = length (snd st ! i')) \<and>
     (\<forall>i' j'. cm ! i' ! j' =
        (if i' = i \<and> j' < length vols
         then Price (projr (black_scholes S K T r (vols ! j') ''Call'')) - cpp
         else fst st ! i' ! j')) \<and>
     (\<forall>i' j'. pm ! i' ! j' =
        (if i' = i \<and> j' < length vols
         then Price (projr (black_scholes S K T r (vols ! j') ''Put'')) - ppp
         else snd st ! i' ! j'))"
  using assms
proof (induction vols rule: rev_induct)
  case Nil
  show ?case
    by (cases st) (simp add: enumerate_list_def)
next
  case (snoc v vols)
  from snoc.prems have le: "length vols \<le> length (fst st ! i)" "length vols \<le> length (snd st ! i)"
    by simp_all
  from snoc.IH [OF snoc.prems(1,2) le]
  obtain cm pm where run: "inner_loop K T r cpp ppp i S (enumerate_list vols) st = Inr (cm, pm)"
    and lc: "length cm = length (fst st)" and lp: "length pm = length (snd st)"
    and rc: "\<And>i'. length (cm ! i') = length (fst st ! i')"
    and rp: "\<And>i'. length (pm ! i') = length (snd st ! i')"
    and vc: "\<And>i' j'. cm ! i' ! j' =
        (if i' = i \<and> j' < length vols
         then Price (projr (black_scholes S K T r (vols ! j') ''Call'')) - cpp
         else fst st ! i' ! j')"
    and vp: "\<And>i' j'. pm ! i' ! j' =
        (if i' = i \<and> j' < length vols
         then Price (projr (black_scholes S K T r (vols ! j') ''Put'')) - ppp
         else snd st ! i' ! j')"
    by blast
  let ?cv = "Price (projr (black_scholes S K T r v ''Call'')) - cpp"
  let ?pv = "Price (projr (black_scholes S K T r v ''Put'')) - ppp"
  let ?cm = "set_cell cm i (length vols) ?cv"
  let ?pm = "set_cell pm i (length vols) ?pv"
  have step: "inner_loop K T r cpp ppp i S [(length vols, v)] (cm, pm) = Inr (?cm, ?pm)"
    by (simp only: inner_loop_Cons inner_loop.simps fst_conv snd_conv)
  have run': "inner_loop K T r cpp ppp i S (enumerate_list (vols @ [v])) st = Inr (?cm, ?pm)"
    by (simp only: enumerate_list_snoc inner_loop_append run step sum.case)
  have ic: "i < length cm" and ip: "i < length pm"
    using snoc.prems lc lp by simp_all
  have jc: "length vols < length (cm ! i)" and jp: "length vols < length (pm ! i)"
    using snoc.prems rc rp by simp_all
  have c: "?cm ! i' ! j' =
        (if i' = i \<and> j' < length (vols @ [v])
         then Price (projr (black_scholes S K T r ((vols @ [v]) ! j') ''Call'')) - cpp
         else fst st ! i' ! j')" for i' j'
    unfolding nth_set_cell [OF ic jc] vc
    by (auto simp add: nth_append less_Suc_eq)
  have p: "?pm ! i' ! j' =
        (if i' = i \<and> j' < length (vols @ [v])
         then Price (projr (black_scholes S K T r ((vols @ [v]) ! j') ''Put'')) - ppp
         else snd st ! i' ! j')" for i' j'
    unfolding nth_set_cell [OF ip jp] vp
    by (auto simp add: nth_append less_Suc_eq)
  show ?case
  proof (intro exI conjI allI)
    show "inner_loop K T r cpp ppp i S (enumerate_list (vols @ [v])) st = Inr (?cm, ?pm)"
      by (rule run')
    show "length ?cm = length (fst st)"
      by (simp only: length_set_cell lc)
    show "length ?pm = length (snd st)"
      by (simp only: length_set_cell lp)
    show "length (?cm ! i') = length (fst st ! i')" for i'
      by (simp only: length_row_set_cell rc)
    show "length (?pm ! i') = length (snd st ! i')" for i'
      by (simp only: length_row_set_cell rp)
    show "?cm ! i' ! j' =
        (if i' = i \<and> j' < length (vols @ [v])
         then Price (projr (black_scholes S K T r ((vols @ [v]) ! j') ''Call'')) - cpp
         else fst st ! i' ! j')" for i' j'
      by (rule c)
    show "?pm ! i' ! j' =
        (if i' = i \<and> j' < length (vols @ [v])
         then Price (projr (black_scholes S K T r ((vols @ [v]) ! j') ''Put'')) - ppp
         else snd st ! i' ! j')" for i' j'
      by (rule p)
  qed
qed

lemma outer_loop_grid:
  assumes "length sp \<le> length (fst st)" and "length sp \<le> length (snd st)"
    and "\<And>i. i < length sp \<Longrightarrow> length vols \<le> length (fst st ! i)"
    and "\<And>i. i < length sp \<Longrightarrow> length vols \<le> length (snd st ! i)"
  shows "\<exists>cm pm. outer_loop K T r cpp ppp vols (enumerate_list sp) st = Inr (cm, pm) \<and>
     length cm = length (fst st) \<and> length pm = length (snd st) \<and>
     (\<forall>i'. length (cm ! i') = length (fst st ! i')) \<and>
     (\<forall>i'. length (pm ! i') = length (snd st ! i')) \<and>
     (\<forall>i' j'. cm ! i' ! j' =
        (if i' < length sp \<and> j' < length vols
         then Price (projr (black_scholes (sp ! i') K T r (vols ! j') ''Call'')) - cpp
         else fst st ! i' ! j')) \<and>
     (\<forall>i' j'. pm ! i' ! j' =
        (if i' < length sp \<and> j' < length vols
         then Price (projr (black_scholes (sp ! i') K T r (vols ! j') ''Put'')) - ppp
         else snd st ! i' ! j'))"
  using assms
proof (induction sp rule: rev_induct)
  case Nil
  show ?case
    by (cases st) (simp add: enumerate_list_def)
next
  case (snoc s sp)
  have "\<exists>cm pm. outer_loop K T r cpp ppp vols (enumerate_list sp) st = Inr (cm, pm) \<and>
     length cm = length (fst st) \<and> length pm = length (snd st) \<and>
     (\<forall>i'. length (cm ! i') = length (fst st ! i')) \<and>
     (\<forall>i'. length (pm ! i') = length (snd st ! i')) \<and>
     (\<forall>i' j'. cm ! i' ! j' =
        (if i' < length sp \<and> j' < length vols
         then Price (projr (black_scholes (sp ! i') K T r (vols ! j') ''Call'')) - cpp
         else fst st ! i' ! j')) \<and>
     (\<forall>i' j'. pm ! i' ! j' =
        (if i' < length sp \<and> j' < length vols
         then Price (projr (black_scholes (sp ! i') K T r (vols ! j') ''Put'')) - ppp
         else snd st ! i' ! j'))"
    using snoc.prems by (intro snoc.IH) simp_all
  then obtain cm pm
    where run: "outer_loop K T r cpp ppp vols (enumerate_list sp) st = Inr (cm, pm)"
    and lc: "length cm = length (fst st)" and lp: "length pm = length (snd st)"
    and rc: "\<And>i'. length (cm ! i') = length (fst st ! i')"
    and rp: "\<And>i'. length (pm ! i') = length (snd st ! i')"
    and vc: "\<And>i' j'. cm ! i' ! j' =
        (if i' < length sp \<and> j' < length vols
         then Price (projr (black_scholes (sp ! i') K T r (vols ! j') ''Call'')) - cpp
         else fst st ! i' ! j')"
    and vp: "\<And>i' j'. pm ! i' ! j' =
        (if i' < length sp \<and> j' < length vols
         then Price (projr (black_scholes (sp ! i') K T r (vols ! j') ''Put'')) - ppp
         else snd st ! i' ! j')"
    by blast
  have ic: "length sp < length (fst (cm, pm))" and ip: "length sp < length (snd (cm, pm))"
    using snoc.prems(1,2) lc lp by simp_all
  have jc: "length vols \<le> length (fst (cm, pm) ! length sp)"
    using snoc.prems(3) [of "length sp"] rc by simp
  have jp: "length vols \<le> length (snd (cm, pm) ! length sp)"
    using snoc.prems(4) [of "length sp"] rp by simp
  from inner_loop_row [OF ic ip jc jp, of K T r cpp ppp s]
  obtain cm' pm'
    where row: "inner_loop K T r cpp ppp (length sp) s (enumerate_list vols) (cm, pm)
                  = Inr (cm', pm')"
    and lc': "length cm' = length cm" and lp': "length pm' = length pm"
    and rc': "\<And>i'. length (cm' ! i') = length (cm ! i')"
    and rp': "\<And>i'. length (pm' ! i') = length (pm ! i')"
    and vc': "\<And>i' j'. cm' ! i' ! j' =
        (if i' = length sp \<and> j' < length vols
         then Price (projr (black_scholes s K T r (vols ! j') ''Call'')) - cpp
         else cm ! i' ! j')"
    and vp': "\<And>i' j'. pm' ! i' ! j' =
        (if i' = length sp \<and> j' < length vols
         then Price (projr (black_scholes s K T r (vols ! j') ''Put'')) - ppp
         else pm ! i' ! j')"
    unfolding fst_conv snd_conv by blast
  have step: "outer_loop K T r cpp ppp vols [(length sp, s)] (cm, pm) = Inr (cm', pm')"
    by (simp add: row)
  have run': "outer_loop K T r cpp ppp vols (enumerate_list (sp @ [s])) st = Inr (cm', pm')"
    by (simp only: enumerate_list_snoc outer_loop_append run step sum.case)
  show ?case
  proof (intro exI conjI allI)
    show "outer_loop K T r cpp ppp vols (enumerate_list (sp @ [s])) st = Inr (cm', pm')"
      by (rule run')
    show "length cm' = length (fst st)"
      by (simp only: lc' lc)
    show "length pm' = length (snd st)"
      by (simp only: lp' lp)
    show "length (cm' ! i') = length (fst st ! i')" for i'
      by (simp only: rc' rc)
    show "length (pm' ! i') = length (snd st ! i')" for i'
      by (simp only: rp' rp)
    show "cm' ! i' ! j' =
        (if i' < length (sp @ [s]) \<and> j' < length vols
         then Price (projr (black_scholes ((sp @ [s]) ! i') K T r (vols ! j') ''Call'')) - cpp
         else fst st ! i' ! j')" for i' j'
      unfolding vc' vc by (auto simp add: nth_append less_Suc_eq)
    show "pm' ! i' ! j' =
        (if i' < length (sp @ [s]) \<and> j' < length vols
         then Price (projr (black_scholes ((sp @ [s]) ! i') K T r (vols ! j') ''Put'')) - ppp
         else snd st ! i' ! j')" for i' j'
      unfolding vp' vp by (auto simp add: nth_append less_Suc_eq)
  qed
qed

lemma length_zeros: "length (zeros m n) = m"
  by (simp add: zeros_def)

lemma length_row_zeros: "i < m \<Longrightarrow> length (zeros m n ! i) = n"
  by (simp add: zeros_def)

text \<open>
  C8. The sweep returns two matrices of 50 rows of 50 cells, and for every index pair
  \<open>(i, j)\<close> the cell of the call matrix is the \<open>"Call"\<close> price at spot
  \<open>stock_prices ! i\<close> and volatility \<open>volatilities ! j\<close> (strike, time and rate fixed)
  minus \<open>call_purchase_price\<close>, and the cell of the put matrix is the \<open>"Put"\<close> price
  there minus \<open>put_purchase_price\<close>.
\<close>

theorem profitability_cells:
  "\<exists>cm pm. profitability K T r S_range sigma_range cpp ppp = Inr (cm, pm) \<and>
     length cm = 50 \<and> length pm = 50 \<and>
     (\<forall>i<50. length (cm ! i) = 50 \<and> length (pm ! i) = 50 \<and>
        (\<forall>j<50. \<exists>c p.
           black_scholes (stock_prices S_range ! i) K T r (volatilities sigma_range ! j) ''Call''
             = Inr c \<and>
           black_scholes (stock_prices S_range ! i) K T r (volatilities sigma_range ! j) ''Put''
             = Inr p \<and>
           cm ! i ! j = Price c - cpp \<and>
           pm ! i ! j = Price p - ppp))"
proof -
  let ?sp = "stock_prices S_range" and ?vs = "volatilities sigma_range"
  let ?st = "(zeros (length ?sp) (length ?vs), zeros (length ?sp) (length ?vs))"
  have lsp: "length ?sp = 50" and lvs: "length ?vs = 50"
    by (simp_all add: stock_prices_def volatilities_def length_linspace)
  have "\<exists>cm pm. outer_loop K T r cpp ppp ?vs (enumerate_list ?sp) ?st = Inr (cm, pm) \<and>
     length cm = length (fst ?st) \<and> length pm = length (snd ?st) \<and>
     (\<forall>i'. length (cm ! i') = length (fst ?st ! i')) \<and>
     (\<forall>i'. length (pm ! i') = length (snd ?st ! i')) \<and>
     (\<forall>i' j'. cm ! i' ! j' =
        (if i' < length ?sp \<and> j' < length ?vs
         then Price (projr (black_scholes (?sp ! i') K T r (?vs ! j') ''Call'')) - cpp
         else fst ?st ! i' ! j')) \<and>
     (\<forall>i' j'. pm ! i' ! j' =
        (if i' < length ?sp \<and> j' < length ?vs
         then Price (projr (black_scholes (?sp ! i') K T r (?vs ! j') ''Put'')) - ppp
         else snd ?st ! i' ! j'))"
    by (rule outer_loop_grid) (simp_all add: length_zeros length_row_zeros)
  then obtain cm pm
    where run: "outer_loop K T r cpp ppp ?vs (enumerate_list ?sp) ?st = Inr (cm, pm)"
    and lc: "length cm = length (fst ?st)" and lp: "length pm = length (snd ?st)"
    and rc: "\<And>i'. length (cm ! i') = length (fst ?st ! i')"
    and rp: "\<And>i'. length (pm ! i') = length (snd ?st ! i')"
    and vc: "\<And>i' j'. cm ! i' ! j' =
        (if i' < length ?sp \<and> j' < length ?vs
         then Price (projr (black_scholes (?sp ! i') K T r (?vs ! j') ''Call'')) - cpp
         else fst ?st ! i' ! j')"
    and vp: "\<And>i' j'. pm ! i' ! j' =
        (if i' < length ?sp \<and> j' < length ?vs
         then Price (projr (black_scholes (?sp ! i') K T r (?vs ! j') ''Put'')) - ppp
         else snd ?st ! i' ! j')"
    by blast
  have res: "profitability K T r S_range sigma_range cpp ppp = Inr (cm, pm)"
    unfolding profitability_def Let_def by (rule run)
  have cell: "\<exists>c p.
           black_scholes (?sp ! i) K T r (?vs ! j) ''Call'' = Inr c \<and>
           black_scholes (?sp ! i) K T r (?vs ! j) ''Put'' = Inr p \<and>
           cm ! i ! j = Price c - cpp \<and>
           pm ! i ! j = Price p - ppp" if "i < 50" and "j < 50" for i j
  proof (intro exI conjI)
    show "black_scholes (?sp ! i) K T r (?vs ! j) ''Call''
            = Inr (projr (black_scholes (?sp ! i) K T r (?vs ! j) ''Call''))"
      by (rule black_scholes_Call_returns)
    show "black_scholes (?sp ! i) K T r (?vs ! j) ''Put''
            = Inr (projr (black_scholes (?sp ! i) K T r (?vs ! j) ''Put''))"
      by (rule black_scholes_Put_returns)
    show "cm ! i ! j = Price (projr (black_scholes (?sp ! i) K T r (?vs ! j) ''Call'')) - cpp"
      using that by (simp add: vc lsp lvs)
    show "pm ! i ! j = Price (projr (black_scholes (?sp ! i) K T r (?vs ! j) ''Put'')) - ppp"
      using that by (simp add: vp lsp lvs)
  qed
  have rows: "length (cm ! i) = 50 \<and> length (pm ! i) = 50" if "i < 50" for i
    using that by (simp add: rc rp lsp lvs length_row_zeros)
  have "length cm = 50" and "length pm = 50"
    by (simp_all add: lc lp lsp length_zeros)
  with res rows cell show ?thesis
    by blast
qed

text \<open>
  The instance \<open>K = 100\<close>, \<open>T = 1\<close>, \<open>r = 0.05\<close>, spot range \<open>(90, 110)\<close>, volatility range
  \<open>(0.15, 0.25)\<close>, purchase prices 10 and 6, at the cell \<open>(0, 0)\<close>, where the spot is 90
  and the volatility is 0.15.
\<close>

theorem profitability_cells_witness:
  "\<exists>cm pm. profitability 100 1 (5 / 100) (90, 110) (15 / 100, 25 / 100) 10 6 = Inr (cm, pm) \<and>
     length cm = 50 \<and> length (cm ! 0) = 50 \<and>
     (\<exists>c p. black_scholes 90 100 1 (5 / 100) (15 / 100) ''Call'' = Inr c \<and>
            black_scholes 90 100 1 (5 / 100) (15 / 100) ''Put'' = Inr p \<and>
            cm ! 0 ! 0 = Price c - 10 \<and> pm ! 0 ! 0 = Price p - 6)"
proof -
  have sp0: "stock_prices (90, 110) ! 0 = 90"
    by (simp add: stock_prices_def linspace_nth)
  have vs0: "volatilities (15 / 100, 25 / 100) ! 0 = 15 / 100"
    by (simp add: volatilities_def linspace_nth)
  from profitability_cells [of 100 1 "5 / 100" "(90, 110)" "(15 / 100, 25 / 100)" 10 6]
  obtain cm pm where
    res: "profitability 100 1 (5 / 100) (90, 110) (15 / 100, 25 / 100) 10 6 = Inr (cm, pm)"
    and len: "length cm = 50"
    and cells: "\<forall>i<50. length (cm ! i) = 50 \<and> length (pm ! i) = 50 \<and>
        (\<forall>j<50. \<exists>c p.
           black_scholes (stock_prices (90, 110) ! i) 100 1 (5 / 100)
             (volatilities (15 / 100, 25 / 100) ! j) ''Call'' = Inr c \<and>
           black_scholes (stock_prices (90, 110) ! i) 100 1 (5 / 100)
             (volatilities (15 / 100, 25 / 100) ! j) ''Put'' = Inr p \<and>
           cm ! i ! j = Price c - 10 \<and>
           pm ! i ! j = Price p - 6)"
    by blast
  from cells have c0: "length (cm ! 0) = 50 \<and>
        (\<exists>c p.
           black_scholes (stock_prices (90, 110) ! 0) 100 1 (5 / 100)
             (volatilities (15 / 100, 25 / 100) ! 0) ''Call'' = Inr c \<and>
           black_scholes (stock_prices (90, 110) ! 0) 100 1 (5 / 100)
             (volatilities (15 / 100, 25 / 100) ! 0) ''Put'' = Inr p \<and>
           cm ! 0 ! 0 = Price c - 10 \<and>
           pm ! 0 ! 0 = Price p - 6)"
    by simp
  show ?thesis
    using res len c0 unfolding sp0 vs0 by blast
qed

end
